theory Spec2Isabelle
  imports Main "HOL-Library.AList" "HOL-Library.Sublist"
begin

section \<open>Python strings and the built-ins the extractor calls\<close>

text \<open>
  A Python \<open>str\<close> is modelled as an Isabelle \<open>string\<close>: one \<open>char\<close> per character, for the
  characters U+0000 to U+00FF. Every token the extractor compares against (month names,
  digits, sign, underscore, comma, parentheses, the conjunction) is ASCII.
\<close>

definition py_isspace :: "char \<Rightarrow> bool" where
  \<comment> \<open>\<open>str.isspace\<close> on one character, which is also what \<open>\s\<close> matches in a \<open>str\<close> pattern:
      TAB, LF, VT, FF, CR, FS, GS, RS, US, SPACE, NEL and NBSP.\<close>
  "py_isspace c =
     (let n = (of_char c :: nat)
      in (9 \<le> n \<and> n \<le> 13) \<or> (28 \<le> n \<and> n \<le> 32) \<or> n = 133 \<or> n = 160)"

definition py_lower_char :: "char \<Rightarrow> char" where
  \<comment> \<open>\<open>str.lower\<close> on one character: A-Z, and the Latin-1 capitals U+00C0-U+00DE but U+00D7.\<close>
  "py_lower_char c =
     (let n = (of_char c :: nat)
      in if (65 \<le> n \<and> n \<le> 90) \<or> (192 \<le> n \<and> n \<le> 222 \<and> n \<noteq> 215)
         then char_of (n + 32) else c)"

definition py_lower :: "string \<Rightarrow> string" where
  "py_lower s = map py_lower_char s"

definition py_strip :: "string \<Rightarrow> string" where
  \<comment> \<open>\<open>s.strip()\<close>: leading and trailing whitespace removed.\<close>
  "py_strip s = rev (dropWhile py_isspace (rev (dropWhile py_isspace s)))"

fun split_acc :: "string \<Rightarrow> string \<Rightarrow> string list" where
  "split_acc cur [] = (if cur = [] then [] else [cur])"
| "split_acc cur (c # cs) =
     (if py_isspace c
      then (if cur = [] then split_acc [] cs else cur # split_acc [] cs)
      else split_acc (cur @ [c]) cs)"

definition py_split :: "string \<Rightarrow> string list" where
  \<comment> \<open>\<open>s.split()\<close>: the maximal runs of non-whitespace characters, in order.\<close>
  "py_split s = split_acc [] s"

fun split_on_acc :: "char \<Rightarrow> string \<Rightarrow> string \<Rightarrow> string list" where
  "split_on_acc sep cur [] = [cur]"
| "split_on_acc sep cur (c # cs) =
     (if c = sep then cur # split_on_acc sep [] cs else split_on_acc sep (cur @ [c]) cs)"

definition py_split_on :: "char \<Rightarrow> string \<Rightarrow> string list" where
  \<comment> \<open>\<open>s.split(sep)\<close> for a one-character separator: empty fields are kept.\<close>
  "py_split_on sep s = split_on_acc sep [] s"

function py_replace :: "string \<Rightarrow> string \<Rightarrow> string \<Rightarrow> string" where
  "py_replace old new [] = []"
| "py_replace old new (c # cs) =
     (if old \<noteq> [] \<and> prefix old (c # cs)
      then new @ py_replace old new (drop (length old) (c # cs))
      else c # py_replace old new cs)"
  by pat_completeness auto
termination
  by (relation "measure (\<lambda>(old, new, s). length s)") (auto simp: neq_Nil_conv)

definition is_digit :: "char \<Rightarrow> bool" where
  "is_digit c = (let n = (of_char c :: nat) in 48 \<le> n \<and> n \<le> 57)"

definition digit_val :: "char \<Rightarrow> int" where
  "digit_val c = int (of_char c) - 48"

fun int_digits :: "bool \<Rightarrow> int \<Rightarrow> string \<Rightarrow> int option" where
  "int_digits prev acc [] = (if prev then Some acc else None)"
| "int_digits prev acc (c # cs) =
     (if is_digit c then int_digits True (acc * 10 + digit_val c) cs
      else if c = CHR ''_'' \<and> prev then int_digits False acc cs
      else None)"

definition int_isspace :: "char \<Rightarrow> bool" where
  \<comment> \<open>The whitespace \<open>int\<close> skips around the number: TAB, LF, VT, FF, CR, SPACE, NEL and
      NBSP. The separators U+001C to U+001F, which \<open>str.isspace\<close> accepts, are rejected.\<close>
  "int_isspace c =
     (let n = (of_char c :: nat)
      in (9 \<le> n \<and> n \<le> 13) \<or> n = 32 \<or> n = 133 \<or> n = 160)"

definition int_max_str_digits :: nat where
  \<comment> \<open>The interpreter's default bound on the digits of a decimal string.\<close>
  "int_max_str_digits = 4300"

definition py_int :: "string \<Rightarrow> int option" where
  \<comment> \<open>\<open>int(s)\<close> in base 10: surrounding whitespace, one optional sign, then decimal digits
      in groups separated by single underscores, at most \<open>int_max_str_digits\<close> digits
      (leading zeros counted). \<open>None\<close> is \<open>ValueError\<close>.\<close>
  "py_int s =
     (case rev (dropWhile int_isspace (rev (dropWhile int_isspace s))) of
        [] \<Rightarrow> None
      | c # cs \<Rightarrow>
          if int_max_str_digits < length (filter is_digit (c # cs)) then None
          else if c = CHR ''-'' then map_option uminus (int_digits False 0 cs)
          else if c = CHR ''+'' then int_digits False 0 cs
          else int_digits False 0 (c # cs))"

definition digit_char :: "nat \<Rightarrow> char" where
  "digit_char d = char_of (48 + d)"

fun show_nat :: "nat \<Rightarrow> string" where
  "show_nat n = (if n < 10 then [digit_char n] else show_nat (n div 10) @ [digit_char (n mod 10)])"

definition fmt02d :: "int \<Rightarrow> string" where
  \<comment> \<open>The format spec \<open>02d\<close>: decimal, zero-padded to a width of two, the sign counted
      in the width.\<close>
  "fmt02d n =
     (if n < 0 then CHR ''-'' # show_nat (nat (- n))
      else if n < 10 then CHR ''0'' # show_nat (nat n)
      else show_nat (nat n))"

section \<open>fetch.py\<close>

datatype py_error = ValueError | HTTPException nat string | RequestError

definition MONTH_MAP :: "(string \<times> string) list" where
  "MONTH_MAP =
     [(''januari'', ''01''), (''februari'', ''02''), (''mars'', ''03''), (''april'', ''04''),
      (''maj'', ''05''), (''juni'', ''06''), (''juli'', ''07''), (''augusti'', ''08''),
      (''september'', ''09''), (''oktober'', ''10''), (''november'', ''11''),
      (''december'', ''12'')]"

definition EMPTY_DATES :: "string set" where
  "EMPTY_DATES = {''01-01'', ''02-02'', ''02-29'', ''03-25'', ''06-24'', ''11-01'', ''12-25''}"

definition DATES_WITH_JUNK :: "string set" where
  "DATES_WITH_JUNK = {''04-30'', ''05-01'', ''12-24'', ''12-26'', ''12-28''}"

text \<open>
  The pattern \<open>\s*\([^)]*\)\<close> tried at the start of a string: whitespace, an opening
  parenthesis, characters other than a closing parenthesis, a closing parenthesis. Each
  part is greedy and no shorter choice can make a later part match, so the match is
  unique; the result is the text after it.
\<close>

definition match_paren :: "string \<Rightarrow> string option" where
  "match_paren s =
     (case dropWhile py_isspace s of
        [] \<Rightarrow> None
      | c # cs \<Rightarrow>
          if c = CHR ''(''
          then (case dropWhile (\<lambda>x. x \<noteq> CHR '')'') cs of
                  [] \<Rightarrow> None
                | d # rest \<Rightarrow> Some rest)
          else None)"

lemma match_paren_shorter: "match_paren s = Some rest \<Longrightarrow> length rest < length s"
proof -
  assume m: "match_paren s = Some rest"
  obtain cs where a: "dropWhile py_isspace s = CHR ''('' # cs"
    using m by (auto simp: match_paren_def split: list.splits if_splits)
  obtain d where b: "dropWhile (\<lambda>x. x \<noteq> CHR '')'') cs = d # rest"
    using m a by (auto simp: match_paren_def split: list.splits)
  have "length (dropWhile py_isspace s) \<le> length s"
    by (rule length_dropWhile_le)
  moreover have "length (dropWhile (\<lambda>x. x \<noteq> CHR '')'') cs) \<le> length cs"
    by (rule length_dropWhile_le)
  ultimately show ?thesis using a b by simp
qed

function sub_parens :: "string \<Rightarrow> string" where
  \<comment> \<open>\<open>re.sub(r"\s*\([^)]*\)", "", s)\<close>: leftmost matches, left to right, not overlapping.\<close>
  "sub_parens [] = []"
| "sub_parens (c # cs) =
     (case match_paren (c # cs) of
        Some rest \<Rightarrow> sub_parens rest
      | None \<Rightarrow> c # sub_parens cs)"
  by pat_completeness auto
termination
  by (relation "measure length") (auto dest: match_paren_shorter)

definition junk_names :: "string \<Rightarrow> string list" where
  \<comment> \<open>Lines 88-92: the loop that appends each cleaned, non-empty fragment.\<close>
  "junk_names names_part =
     filter (\<lambda>cleaned. cleaned \<noteq> [])
       (map (\<lambda>n. py_strip (sub_parens n))
          (py_split_on CHR '','' (py_replace '' och '' '','' names_part)))"

definition default_names :: "string \<Rightarrow> string list" where
  \<comment> \<open>Lines 96-100: the list comprehension.\<close>
  "default_names names_part =
     map py_strip
       (filter (\<lambda>n. py_strip n \<noteq> [])
          (py_split_on CHR '','' (py_replace '' och '' '','' names_part)))"

type_synonym row = "string list"
type_synonym table = "row list"
type_synonym document = "table list"
type_synonym nameday_table = "(string \<times> string list) list"

text \<open>
  The markup reaches the extractor through the HTML parser, which is a library. A
  \<open>document\<close> is what the three \<open>find_all\<close> calls and \<open>get_text(strip=True)\<close> deliver: the
  tables of class \<open>wikitable\<close>, for each its \<open>tr\<close> elements, for each the texts of its
  \<open>td\<close> and \<open>th\<close> cells.

  The body of the row loop, lines 63-102: \<open>Inr None\<close> is \<open>continue\<close> with nothing recorded,
  \<open>Inr (Some (key, names))\<close> is \<open>result[key] = names\<close>, \<open>Inl\<close> an exception.
\<close>

definition parse_row :: "row \<Rightarrow> py_error + (string \<times> string list) option" where
  "parse_row cols =
     (if length cols < 2 then Inr None
      else
        let date_part = py_lower (cols ! 0);
            names_part = cols ! 1;
            parts = py_split date_part
        in if length parts \<noteq> 2 then Inr None
           else
             let day = parts ! 0; month_sv = parts ! 1
             in case map_of MONTH_MAP month_sv of
                  None \<Rightarrow> Inr None
                | Some month \<Rightarrow>
                    (case py_int day of
                       None \<Rightarrow> Inl ValueError
                     | Some d \<Rightarrow>
                         let key = month @ ''-'' @ fmt02d d
                         in if key \<in> EMPTY_DATES then Inr (Some (key, []))
                            else if key \<in> DATES_WITH_JUNK
                            then Inr (Some (key, junk_names names_part))
                            else Inr (Some (key, default_names names_part))))"

text \<open>
  The dictionary \<open>result\<close> is an association list in insertion order; \<open>AList.update\<close>
  replaces the value of a key that is present where it stands and appends a new key,
  as assignment to a Python \<open>dict\<close> does.
\<close>

fun parse_rows :: "nameday_table \<Rightarrow> row list \<Rightarrow> py_error + nameday_table" where
  "parse_rows result [] = Inr result"
| "parse_rows result (r # rows) =
     (case parse_row r of
        Inl e \<Rightarrow> Inl e
      | Inr None \<Rightarrow> parse_rows result rows
      | Inr (Some (key, names)) \<Rightarrow> parse_rows (AList.update key names result) rows)"

fun parse_tables_loop :: "nameday_table \<Rightarrow> document \<Rightarrow> py_error + nameday_table" where
  "parse_tables_loop result [] = Inr result"
| "parse_tables_loop result (t # tables) =
     (case parse_rows result (drop 1 t) of
        Inl e \<Rightarrow> Inl e
      | Inr result' \<Rightarrow> parse_tables_loop result' tables)"

definition parse_tables :: "document \<Rightarrow> py_error + nameday_table" where
  "parse_tables html = parse_tables_loop [] html"


section \<open>main.py\<close>

definition KV_KEY :: string where
  "KV_KEY = ''namedays''"

text \<open>
  The process state the handlers read and write: the configured key, the Redis store
  (\<open>None\<close> when \<open>kv\<close> is \<open>None\<close>), the file at \<open>JSON_PATH\<close> (\<open>None\<close> when it does not
  exist) and the global \<open>NAMEDAYS\<close>. A stored JSON text is represented by the table it
  encodes.
\<close>

record server =
  API_KEY :: string
  kv :: "(string \<times> nameday_table) list option"
  json_file :: "nameday_table option"
  NAMEDAYS :: nameday_table

record date_response =
  date :: string
  names :: "string list"
  count :: nat

record refresh_response =
  status :: string
  total_dates :: nat
  total_names :: nat

definition dict_get :: "('k \<times> 'v) list \<Rightarrow> 'k \<Rightarrow> 'v \<Rightarrow> 'v" where
  \<comment> \<open>\<open>d.get(k, default)\<close>\<close>
  "dict_get d k dflt = (case map_of d k of None \<Rightarrow> dflt | Some v \<Rightarrow> v)"

definition is_leap :: "int \<Rightarrow> bool" where
  "is_leap year = (year mod 4 = 0 \<and> (year mod 100 \<noteq> 0 \<or> year mod 400 = 0))"

definition days_in_month :: "int \<Rightarrow> int \<Rightarrow> int" where
  "days_in_month year month =
     (if month = 2 \<and> is_leap year then 29
      else [31, 28, 31, 30, 31, 30, 31, 31, 30, 31, 30, 31] ! nat (month - 1))"

definition datetime :: "int \<Rightarrow> int \<Rightarrow> int \<Rightarrow> py_error + int \<times> int \<times> int" where
  \<comment> \<open>The constructor \<open>datetime(year, month, day)\<close> of the standard library: the three
      range checks, each a \<open>ValueError\<close>.\<close>
  "datetime year month day =
     (if year < 1 \<or> 9999 < year then Inl ValueError
      else if month < 1 \<or> 12 < month then Inl ValueError
      else if day < 1 \<or> days_in_month year month < day then Inl ValueError
      else Inr (year, month, day))"

definition get_date :: "nameday_table \<Rightarrow> int \<Rightarrow> int \<Rightarrow> py_error + date_response" where
  "get_date namedays month day =
     (if month < 1 \<or> month > 12
      then Inl (HTTPException 400 ''Month must be between 1 and 12'')
      else if day < 1 \<or> day > 31
      then Inl (HTTPException 400 ''Day must be between 1 and 31'')
      else
        case datetime 2000 month day of
          Inl e \<Rightarrow> Inl (HTTPException 400 ''Invalid date'')
        | Inr dt \<Rightarrow>
            let date_key = fmt02d month @ ''-'' @ fmt02d day;
                ns = dict_get namedays date_key []
            in Inr \<lparr>date = date_key, names = ns, count = length ns\<rparr>)"

definition verify_api_key :: "server \<Rightarrow> string \<Rightarrow> py_error + unit" where
  "verify_api_key s x_api_key =
     (if API_KEY s = [] then Inl (HTTPException 500 ''API key not configured on server'')
      else if x_api_key \<noteq> API_KEY s then Inl (HTTPException 401 ''Invalid API key'')
      else Inr ())"

text \<open>
  \<open>refresh_namedays\<close> takes the state, the header and the outcome of \<open>fetch_html()\<close> (the
  network call: an exception or the document) and returns the response or the exception,
  with the state it leaves.
\<close>

definition refresh_namedays ::
  "server \<Rightarrow> string \<Rightarrow> py_error + document \<Rightarrow> (py_error + refresh_response) \<times> server" where
  "refresh_namedays s x_api_key fetched =
     (case verify_api_key s x_api_key of
        Inl e \<Rightarrow> (Inl e, s)
      | Inr u \<Rightarrow>
          (case fetched of
             Inl e \<Rightarrow> (Inl e, s)
           | Inr html \<Rightarrow>
               (case parse_tables html of
                  Inl e \<Rightarrow> (Inl e, s)
                | Inr data \<Rightarrow>
                    if data = []
                    then (Inl (HTTPException 500 ''Failed to fetch data from Wikipedia''), s)
                    else
                      let s1 = (case kv s of
                                  Some store \<Rightarrow> s\<lparr>kv := Some (AList.update KV_KEY data store)\<rparr>
                                | None \<Rightarrow> s\<lparr>json_file := Some data\<rparr>);
                          s2 = s1\<lparr>NAMEDAYS := data\<rparr>
                      in (Inr \<lparr>status = ''success'',
                               total_dates = length (NAMEDAYS s2),
                               total_names = sum_list (map (\<lambda>(k, ns). length ns) (NAMEDAYS s2))\<rparr>,
                          s2))))"

section \<open>Predicates of the specification\<close>

definition is_date_key :: "string \<Rightarrow> bool" where
  \<comment> \<open>The shape \<open>MM-DD\<close>: two digits in 01..12, a hyphen, two digits in 01..31.\<close>
  "is_date_key k =
     (length k = 5 \<and> k ! 2 = CHR ''-'' \<and>
      is_digit (k ! 0) \<and> is_digit (k ! 1) \<and> is_digit (k ! 3) \<and> is_digit (k ! 4) \<and>
      1 \<le> 10 * digit_val (k ! 0) + digit_val (k ! 1) \<and>
      10 * digit_val (k ! 0) + digit_val (k ! 1) \<le> 12 \<and>
      1 \<le> 10 * digit_val (k ! 3) + digit_val (k ! 4) \<and>
      10 * digit_val (k ! 3) + digit_val (k ! 4) \<le> 31)"

fun has_paren :: "string \<Rightarrow> bool" where
  \<comment> \<open>An opening parenthesis with a closing one somewhere after it.\<close>
  "has_paren [] = False"
| "has_paren (c # cs) = ((c = CHR ''('' \<and> CHR '')'' \<in> set cs) \<or> has_paren cs)"

text \<open>
  The specification's words for the strip-annotations path: a parenthetical substring is
  the text from an opening parenthesis to the next closing one; removal deletes each,
  left to right, and leaves an opening parenthesis that is never closed.
\<close>

function spec_remove_parens :: "string \<Rightarrow> string" where
  "spec_remove_parens [] = []"
| "spec_remove_parens (c # cs) =
     (if c = CHR ''('' \<and> CHR '')'' \<in> set cs
      then spec_remove_parens (tl (dropWhile (\<lambda>x. x \<noteq> CHR '')'') cs))
      else c # spec_remove_parens cs)"
  by pat_completeness auto
termination
proof (relation "measure length")
  show "wf (measure length)" by simp
next
  fix c :: char and cs :: string
  have "length (tl (dropWhile (\<lambda>x. x \<noteq> CHR '')'') cs)) \<le> length cs"
    using length_dropWhile_le [of "\<lambda>x. x \<noteq> CHR '')''" cs] by simp
  then show "(tl (dropWhile (\<lambda>x. x \<noteq> CHR '')'') cs), c # cs) \<in> measure length"
    by simp
next
  fix c :: char and cs :: string
  show "(cs, c # cs) \<in> measure length" by simp
qed

text \<open>
  The strip-annotations path as the claim words it: the conjunction replaced by a comma,
  the cell split on commas, each parenthetical substring removed, the fragment trimmed,
  the empty results dropped.
\<close>

definition spec_junk_names :: "string \<Rightarrow> string list" where
  "spec_junk_names names_part =
     filter (\<lambda>n. n \<noteq> [])
       (map (\<lambda>f. py_strip (spec_remove_parens f))
          (py_split_on CHR '','' (py_replace '' och '' '','' names_part)))"

text \<open>
  The same path with the removal the pattern performs: a run of whitespace that stands
  directly before a parenthetical substring goes with it.
\<close>

definition parenthetical_ahead :: "string \<Rightarrow> bool" where
  "parenthetical_ahead s =
     (case dropWhile py_isspace s of
        [] \<Rightarrow> False
      | x # r \<Rightarrow> x = CHR ''('' \<and> CHR '')'' \<in> set r)"

fun drop_space_before_parens :: "string \<Rightarrow> string" where
  "drop_space_before_parens [] = []"
| "drop_space_before_parens (c # cs) =
     (if py_isspace c \<and> parenthetical_ahead cs then drop_space_before_parens cs
      else c # drop_space_before_parens cs)"

definition amended_junk_names :: "string \<Rightarrow> string list" where
  "amended_junk_names names_part =
     filter (\<lambda>n. n \<noteq> [])
       (map (\<lambda>f. py_strip (spec_remove_parens (drop_space_before_parens f)))
          (py_split_on CHR '','' (py_replace '' och '' '','' names_part)))"

section \<open>The row loop\<close>

lemma length2_conv: "length xs = 2 \<Longrightarrow> xs = [xs ! 0, xs ! 1]"
  by (cases xs; cases "tl xs") auto

lemma parse_row_skip:
  assumes "length r < 2 \<or> length (py_split (py_lower (r ! 0))) \<noteq> 2
             \<or> map_of MONTH_MAP (py_split (py_lower (r ! 0)) ! 1) = None"
  shows "parse_row r = Inr None"
  using assms by (auto simp: parse_row_def Let_def)

lemma parse_row_recognised:
  assumes "2 \<le> length cols"
    and "py_split (py_lower (cols ! 0)) = [day, month_sv]"
    and "map_of MONTH_MAP month_sv = Some month"
  shows "parse_row cols =
           (case py_int day of
              None \<Rightarrow> Inl ValueError
            | Some d \<Rightarrow>
                let key = month @ ''-'' @ fmt02d d
                in if key \<in> EMPTY_DATES then Inr (Some (key, []))
                   else if key \<in> DATES_WITH_JUNK then Inr (Some (key, junk_names (cols ! 1)))
                   else Inr (Some (key, default_names (cols ! 1))))"
  using assms by (simp add: parse_row_def Let_def split: option.splits)

lemma parse_row_SomeD:
  assumes "parse_row cols = Inr (Some (key, ns))"
  obtains day month_sv month d where
    "2 \<le> length cols"
    "py_split (py_lower (cols ! 0)) = [day, month_sv]"
    "map_of MONTH_MAP month_sv = Some month"
    "py_int day = Some d"
    "key = month @ ''-'' @ fmt02d d"
    "ns = (if key \<in> EMPTY_DATES then []
           else if key \<in> DATES_WITH_JUNK then junk_names (cols ! 1)
           else default_names (cols ! 1))"
proof -
  from assms have len: "2 \<le> length cols"
    by (auto simp: parse_row_def split: if_splits)
  from assms len have l2: "length (py_split (py_lower (cols ! 0))) = 2"
    by (auto simp: parse_row_def Let_def split: if_splits)
  let ?parts = "py_split (py_lower (cols ! 0))"
  have parts: "?parts = [?parts ! 0, ?parts ! 1]"
    using l2 by (rule length2_conv)
  from assms len l2 obtain month where mo: "map_of MONTH_MAP (?parts ! 1) = Some month"
    by (auto simp: parse_row_def Let_def split: if_splits option.splits)
  from assms len l2 mo obtain d where d: "py_int (?parts ! 0) = Some d"
    by (auto simp: parse_row_def Let_def split: if_splits option.splits)
  from assms len l2 mo d have
    "key = month @ ''-'' @ fmt02d d \<and>
     ns = (if key \<in> EMPTY_DATES then []
           else if key \<in> DATES_WITH_JUNK then junk_names (cols ! 1)
           else default_names (cols ! 1))"
    by (auto simp: parse_row_def Let_def split: if_splits)
  with len parts mo d that show thesis by blast
qed

lemma month_codes:
  "map_of MONTH_MAP month_sv = Some month \<Longrightarrow>
     month \<in> {''01'', ''02'', ''03'', ''04'', ''05'', ''06'', ''07'', ''08'', ''09'', ''10'', ''11'', ''12''}"
  by (auto simp: MONTH_MAP_def split: if_splits)

lemma parse_rows_append:
  "parse_rows result (xs @ ys) =
     (case parse_rows result xs of Inl e \<Rightarrow> Inl e | Inr result' \<Rightarrow> parse_rows result' ys)"
  by (induction xs arbitrary: result) (auto split: sum.splits option.splits)

lemma parse_tables_loop_append:
  "parse_tables_loop result (ts @ us) =
     (case parse_tables_loop result ts of Inl e \<Rightarrow> Inl e | Inr result' \<Rightarrow> parse_tables_loop result' us)"
  by (induction ts arbitrary: result) (auto split: sum.splits)

lemma parse_tables_loop_rows:
  "parse_tables_loop result html = parse_rows result (concat (map (drop 1) html))"
  by (induction html arbitrary: result) (auto simp: parse_rows_append split: sum.splits)

text \<open>
  Claim C4. A row with fewer than two cells, or whose lowercased date cell does not split
  into exactly two whitespace-separated tokens, or whose month token is not a key of
  \<open>MONTH_MAP\<close>, contributes nothing: with the row standing anywhere after the header of
  any table, \<open>parse_tables\<close> gives what it gives on the document without that row (the
  same mapping in the same order, or the same exception).
\<close>

theorem skipped_row_contributes_nothing:
  assumes "length r < 2 \<or> length (py_split (py_lower (r ! 0))) \<noteq> 2
             \<or> map_of MONTH_MAP (py_split (py_lower (r ! 0)) ! 1) = None"
  shows "parse_tables (ts1 @ (hdr # pre @ r # post) # ts2) =
         parse_tables (ts1 @ (hdr # pre @ post) # ts2)"
proof -
  have "parse_row r = Inr None"
    using assms by (rule parse_row_skip)
  then have "parse_rows res (r # post) = parse_rows res post" for res
    by simp
  then have "parse_rows res (pre @ r # post) = parse_rows res (pre @ post)" for res
    by (simp add: parse_rows_append split: sum.splits)
  then show ?thesis
    by (simp add: parse_tables_def parse_tables_loop_append split: sum.splits)
qed

theorem skipped_row_contributes_nothing_witness:
  "parse_tables [[[''Datum'', ''Namn''], [''15 Mars'', ''Kristoffer, Christoffer''],
                  [''Se fotnot''], [''18 maj'', ''Erik och Erika'']]]
     = parse_tables [[[''Datum'', ''Namn''], [''15 Mars'', ''Kristoffer, Christoffer''],
                      [''18 maj'', ''Erik och Erika'']]]
   \<and> parse_tables [[[''Datum'', ''Namn''], [''den 15 mars'', ''Kristoffer'']]]
     = parse_tables [[[''Datum'', ''Namn'']]]
   \<and> parse_tables [[[''Datum'', ''Namn'']], [[''Datum'', ''Namn''], [''15 marz'', ''Kristoffer'']]]
     = parse_tables [[[''Datum'', ''Namn'']], [[''Datum'', ''Namn'']]]"
proof -
  have a: "length [''Se fotnot''] < 2" by simp
  have b: "length (py_split (py_lower ([''den 15 mars'', ''Kristoffer''] ! 0))) \<noteq> 2"
    by code_simp
  have c: "map_of MONTH_MAP (py_split (py_lower ([''15 marz'', ''Kristoffer''] ! 0)) ! 1) = None"
    by code_simp
  show ?thesis
    using skipped_row_contributes_nothing
            [of "[''Se fotnot'']" "[]" "[''Datum'', ''Namn'']"
                "[[''15 Mars'', ''Kristoffer, Christoffer'']]" "[[''18 maj'', ''Erik och Erika'']]" "[]"]
          skipped_row_contributes_nothing
            [of "[''den 15 mars'', ''Kristoffer'']" "[]" "[''Datum'', ''Namn'']" "[]" "[]" "[]"]
          skipped_row_contributes_nothing
            [of "[''15 marz'', ''Kristoffer'']" "[[[''Datum'', ''Namn'']]]" "[''Datum'', ''Namn'']"
                "[]" "[]" "[]"]
          a b c
    by simp
qed


declare show_nat.simps [simp del]

lemma digit_char_0: "digit_char 0 = CHR ''0''"
  by code_simp

lemma is_digit_digit_char: "d < 10 \<Longrightarrow> is_digit (digit_char d)"
  by (simp add: is_digit_def digit_char_def)

lemma digit_val_digit_char: "d < 10 \<Longrightarrow> digit_val (digit_char d) = int d"
  by (simp add: digit_val_def digit_char_def)

lemma show_nat_digit: "n < 10 \<Longrightarrow> show_nat n = [digit_char n]"
  by (subst show_nat.simps) simp

lemma show_nat_step: "10 \<le> n \<Longrightarrow> show_nat n = show_nat (n div 10) @ [digit_char (n mod 10)]"
  by (subst show_nat.simps) simp

lemma show_nat_nonempty: "show_nat n \<noteq> []"
  by (subst show_nat.simps) simp

lemma show_nat_two: "10 \<le> n \<Longrightarrow> n < 100 \<Longrightarrow> show_nat n = [digit_char (n div 10), digit_char (n mod 10)]"
  by (simp add: show_nat_step show_nat_digit)

lemma show_nat_long: "100 \<le> n \<Longrightarrow> 3 \<le> length (show_nat n)"
proof -
  assume n: "100 \<le> n"
  then have "10 \<le> n div 10" by simp
  then have "show_nat (n div 10) = show_nat (n div 10 div 10) @ [digit_char (n div 10 mod 10)]"
    by (rule show_nat_step)
  moreover have "show_nat n = show_nat (n div 10) @ [digit_char (n mod 10)]"
    using n by (simp add: show_nat_step)
  moreover have "1 \<le> length (show_nat (n div 10 div 10))"
    using show_nat_nonempty [of "n div 10 div 10"] by (cases "show_nat (n div 10 div 10)") auto
  ultimately show ?thesis by simp
qed

lemma fmt02d_two_digits:
  assumes "0 \<le> d" and "d < 100"
  shows "fmt02d d = [digit_char (nat d div 10), digit_char (nat d mod 10)]"
proof (cases "d < 10")
  case True
  then show ?thesis
    using assms by (simp add: fmt02d_def show_nat_digit digit_char_0)
next
  case False
  then show ?thesis
    using assms by (simp add: fmt02d_def show_nat_two)
qed

lemma month_code_shape:
  assumes "map_of MONTH_MAP month_sv = Some month"
  shows "length month = 2 \<and> is_digit (month ! 0) \<and> is_digit (month ! 1) \<and>
         1 \<le> 10 * digit_val (month ! 0) + digit_val (month ! 1) \<and>
         10 * digit_val (month ! 0) + digit_val (month ! 1) \<le> 12"
  using month_codes [OF assms] by (auto simp: is_digit_def digit_val_def)

lemma date_key_iff:
  assumes "map_of MONTH_MAP month_sv = Some month"
  shows "is_date_key (month @ ''-'' @ fmt02d d) \<longleftrightarrow> 1 \<le> d \<and> d \<le> 31"
proof -
  from month_code_shape [OF assms] obtain m1 m2 where
    mo: "month = [m1, m2]" "is_digit m1" "is_digit m2"
        "1 \<le> 10 * digit_val m1 + digit_val m2" "10 * digit_val m1 + digit_val m2 \<le> 12"
    by (cases month; cases "tl month") auto
  consider "d < 0" | "0 \<le> d" "d < 100" | "100 \<le> d" by linarith
  then show ?thesis
  proof cases
    case 1
    then show ?thesis
      by (simp add: mo is_date_key_def fmt02d_def is_digit_def)
  next
    case 2
    have lt: "nat d div 10 < 10" "nat d mod 10 < 10"
      using 2 by auto
    have val: "10 * int (nat d div 10) + int (nat d mod 10) = d"
      using 2 by (simp add: zdiv_int zmod_int)
    show ?thesis
      using mo lt val
      by (simp add: is_date_key_def fmt02d_two_digits [OF 2] is_digit_digit_char
                    digit_val_digit_char)
  next
    case 3
    then have "3 \<le> length (show_nat (nat d))"
      by (intro show_nat_long) simp
    then show ?thesis
      using 3 by (simp add: mo is_date_key_def fmt02d_def)
  qed
qed

lemma parse_rows_keys:
  assumes "parse_rows result rows = Inr m" and "k \<in> fst ` set m"
  shows "k \<in> fst ` set result \<or> (\<exists>r \<in> set rows. \<exists>ns. parse_row r = Inr (Some (k, ns)))"
  using assms
proof (induction rows arbitrary: result)
  case Nil
  then show ?case by simp
next
  case (Cons r rows)
  show ?case
  proof (cases "parse_row r")
    case (Inl e)
    with Cons.prems show ?thesis by simp
  next
    case (Inr o1)
    show ?thesis
    proof (cases o1)
      case None
      with Inr Cons show ?thesis by auto
    next
      case (Some p)
      obtain key ns where p: "p = (key, ns)" by (cases p)
      from Cons.prems Inr Some p
      have "parse_rows (AList.update key ns result) rows = Inr m" by simp
      from Cons.IH [OF this Cons.prems(2)]
      show ?thesis
        using Inr Some p by (auto simp: AList.dom_update)
    qed
  qed
qed

text \<open>
  Claim C2, as amended. The extractor checks no range of the day. Every key of the mapping
  \<open>parse_tables\<close> returns comes from a row after a header: the two-digit code that
  \<open>MONTH_MAP\<close> gives for the row's month token (a month in 01..12), a hyphen and the \<open>02d\<close>
  rendering of the integer \<open>int\<close> reads from the row's day token; it has the shape \<open>MM-DD\<close>
  with a day in 01..31 exactly when that integer lies in 1..31.
\<close>

theorem parse_tables_keys:
  assumes "parse_tables html = Inr m" and "k \<in> fst ` set m"
  shows "\<exists>r \<in> set (concat (map (drop 1) html)). \<exists>day month_sv month d.
           2 \<le> length r \<and>
           py_split (py_lower (r ! 0)) = [day, month_sv] \<and>
           map_of MONTH_MAP month_sv = Some month \<and>
           py_int day = Some d \<and>
           k = month @ ''-'' @ fmt02d d \<and>
           length month = 2 \<and> is_digit (month ! 0) \<and> is_digit (month ! 1) \<and>
           1 \<le> 10 * digit_val (month ! 0) + digit_val (month ! 1) \<and>
           10 * digit_val (month ! 0) + digit_val (month ! 1) \<le> 12 \<and>
           (is_date_key k \<longleftrightarrow> 1 \<le> d \<and> d \<le> 31)"
proof -
  from assms have "parse_rows [] (concat (map (drop 1) html)) = Inr m"
    by (simp add: parse_tables_def parse_tables_loop_rows)
  from parse_rows_keys [OF this assms(2)]
  obtain r ns where r: "r \<in> set (concat (map (drop 1) html))"
    and row: "parse_row r = Inr (Some (k, ns))" by auto
  from row obtain day month_sv month d where
    len: "2 \<le> length r"
    and sp: "py_split (py_lower (r ! 0)) = [day, month_sv]"
    and mo: "map_of MONTH_MAP month_sv = Some month"
    and d: "py_int day = Some d"
    and k: "k = month @ ''-'' @ fmt02d d"
    by (rule parse_row_SomeD)
  have "2 \<le> length r \<and>
        py_split (py_lower (r ! 0)) = [day, month_sv] \<and>
        map_of MONTH_MAP month_sv = Some month \<and>
        py_int day = Some d \<and>
        k = month @ ''-'' @ fmt02d d \<and>
        length month = 2 \<and> is_digit (month ! 0) \<and> is_digit (month ! 1) \<and>
        1 \<le> 10 * digit_val (month ! 0) + digit_val (month ! 1) \<and>
        10 * digit_val (month ! 0) + digit_val (month ! 1) \<le> 12 \<and>
        (is_date_key k \<longleftrightarrow> 1 \<le> d \<and> d \<le> 31)"
    using len sp mo d k month_code_shape [OF mo] date_key_iff [OF mo, of d] by blast
  with r show ?thesis by blast
qed

theorem parse_tables_keys_witness:
  "parse_tables [[[''Datum'', ''Namn''], [''30 April'', ''Mariana (Valborg)'']]]
     = Inr [(''04-30'', [''Mariana''])]
   \<and> (\<exists>r \<in> set (concat (map (drop 1)
                 [[[''Datum'', ''Namn''], [''30 April'', ''Mariana (Valborg)'']]])).
       \<exists>day month_sv month d.
         2 \<le> length r \<and>
         py_split (py_lower (r ! 0)) = [day, month_sv] \<and>
         map_of MONTH_MAP month_sv = Some month \<and>
         py_int day = Some d \<and>
         ''04-30'' = month @ ''-'' @ fmt02d d \<and>
         length month = 2 \<and> is_digit (month ! 0) \<and> is_digit (month ! 1) \<and>
         1 \<le> 10 * digit_val (month ! 0) + digit_val (month ! 1) \<and>
         10 * digit_val (month ! 0) + digit_val (month ! 1) \<le> 12 \<and>
         (is_date_key ''04-30'' \<longleftrightarrow> 1 \<le> d \<and> d \<le> 31))"
proof -
  have run: "parse_tables [[[''Datum'', ''Namn''], [''30 April'', ''Mariana (Valborg)'']]]
               = Inr [(''04-30'', [''Mariana''])]"
    by code_simp
  have key: "''04-30'' \<in> fst ` set [(''04-30'', [''Mariana''])]"
    by simp
  from run parse_tables_keys [OF run key] show ?thesis
    by (intro conjI)
qed

text \<open>
  The claim as stated fails on a day token outside 1..31: the row is recorded under a
  key that is no DateKey.
\<close>

theorem parse_tables_key_day_out_of_range:
  "parse_tables [[[''Datum'', ''Namn''], [''99 januari'', ''Svea'']]] = Inr [(''01-99'', [''Svea''])]
   \<and> \<not> is_date_key ''01-99''"
  by code_simp

text \<open>
  Claim C1. The claim says that a row with a recognised month token and a day token that
  is no number is skipped. The code converts the day token with \<open>int\<close> outside any
  handler, after the three guards that skip a row: the \<open>ValueError\<close> leaves
  \<open>parse_tables\<close>, and no mapping is returned.
\<close>

theorem parse_tables_non_numeric_day_raises:
  "parse_tables [[[''Datum'', ''Namn''], [''15 Mars'', ''Kristoffer, Christoffer''],
                  [''foo januari'', ''Svea'']]]
     = Inl ValueError"
  by code_simp


section \<open>Recorded keys and the forced-empty dates\<close>


lemma parse_rows_single:
  "parse_row r = Inr (Some (key, ns)) \<Longrightarrow> parse_rows result [r] = Inr (AList.update key ns result)"
  by simp

text \<open>
  Claim C3. A row with at least two cells whose lowercased date cell splits into exactly
  two tokens, the second a key of \<open>MONTH_MAP\<close>, the first read by \<open>int\<close> as a number from
  1 to 31, is recorded under the month's code, a hyphen and the day as two decimal
  digits, zero-padded: the key is a DateKey, and a leading zero of the day token changes
  nothing, since the key depends on the token only through its integer.
\<close>

theorem well_formed_row_key:
  assumes "2 \<le> length cols"
    and "py_split (py_lower (cols ! 0)) = [day, month_sv]"
    and "map_of MONTH_MAP month_sv = Some month"
    and "py_int day = Some d"
    and "1 \<le> d" and "d \<le> 31"
  shows "\<exists>ns. parse_row cols = Inr (Some (month @ ''-'' @ fmt02d d, ns)) \<and>
              parse_rows result [cols] = Inr (AList.update (month @ ''-'' @ fmt02d d) ns result) \<and>
              fmt02d d = [digit_char (nat d div 10), digit_char (nat d mod 10)] \<and>
              is_date_key (month @ ''-'' @ fmt02d d)"
proof -
  have row: "\<exists>ns. parse_row cols = Inr (Some (month @ ''-'' @ fmt02d d, ns))"
    using assms(4) by (simp add: parse_row_recognised [OF assms(1-3)] Let_def)
  have two: "fmt02d d = [digit_char (nat d div 10), digit_char (nat d mod 10)]"
    using assms(5,6) by (intro fmt02d_two_digits) simp_all
  have key: "is_date_key (month @ ''-'' @ fmt02d d)"
    using assms(5,6) date_key_iff [OF assms(3), of d] by blast
  from row two key show ?thesis
    by (auto simp del: parse_rows.simps simp: parse_rows_single)
qed

theorem well_formed_row_key_witness:
  "(\<exists>ns. parse_row [''05 Mars'', ''Tora''] = Inr (Some (''03-05'', ns))) \<and>
   (\<exists>ns. parse_row [''5 mars'', ''Tora''] = Inr (Some (''03-05'', ns))) \<and>
   is_date_key ''03-05''"
proof -
  have l: "2 \<le> length [''05 Mars'', ''Tora'']" "2 \<le> length [''5 mars'', ''Tora'']"
    by simp_all
  have s1: "py_split (py_lower ([''05 Mars'', ''Tora''] ! 0)) = [''05'', ''mars'']"
    by code_simp
  have s2: "py_split (py_lower ([''5 mars'', ''Tora''] ! 0)) = [''5'', ''mars'']"
    by code_simp
  have mo: "map_of MONTH_MAP ''mars'' = Some ''03''"
    by code_simp
  have d1: "py_int ''05'' = Some 5" and d2: "py_int ''5'' = Some 5"
    by code_simp+
  have r: "(1::int) \<le> 5" "(5::int) \<le> 31" by simp_all
  have k: "''03'' @ ''-'' @ fmt02d 5 = ''03-05''"
    by code_simp
  show ?thesis
    using well_formed_row_key [OF l(1) s1 mo d1 r, of "[]"]
          well_formed_row_key [OF l(2) s2 mo d2 r, of "[]"]
    unfolding k by blast
qed

text \<open>
  Claim C5. When the key a row composes is in \<open>EMPTY_DATES\<close>, the row records the empty
  list, and so does every row with the same date cell whatever its names cell and the
  cells after it are. The test for \<open>EMPTY_DATES\<close> comes first: nothing is assumed about
  \<open>DATES_WITH_JUNK\<close>.
\<close>

theorem force_empty_ignores_names:
  assumes "parse_row (date_cell # names_cell # rest_cells) = Inr (Some (key, ns))"
    and "key \<in> EMPTY_DATES"
  shows "ns = [] \<and> parse_row (date_cell # other_names # others) = Inr (Some (key, [])) \<and>
         parse_rows result [date_cell # other_names # others] = Inr (AList.update key [] result)"
proof -
  from assms(1) obtain day month_sv month d where
    sp: "py_split (py_lower ((date_cell # names_cell # rest_cells) ! 0)) = [day, month_sv]"
    and mo: "map_of MONTH_MAP month_sv = Some month"
    and d: "py_int day = Some d"
    and key: "key = month @ ''-'' @ fmt02d d"
    and ns: "ns = (if key \<in> EMPTY_DATES then []
                   else if key \<in> DATES_WITH_JUNK
                   then junk_names ((date_cell # names_cell # rest_cells) ! 1)
                   else default_names ((date_cell # names_cell # rest_cells) ! 1))"
    by (rule parse_row_SomeD)
  have len: "2 \<le> length (date_cell # other_names # others)" by simp
  have sp': "py_split (py_lower ((date_cell # other_names # others) ! 0)) = [day, month_sv]"
    using sp by simp
  have "parse_row (date_cell # other_names # others) = Inr (Some (key, []))"
    using d key assms(2) by (simp add: parse_row_recognised [OF len sp' mo] Let_def)
  then show ?thesis
    using ns assms(2) by (simp del: parse_rows.simps add: parse_rows_single)
qed

theorem force_empty_ignores_names_witness:
  "parse_row [''1 Januari'', ''Svea''] = Inr (Some (''01-01'', [])) \<and>
   parse_row [''1 Januari'', ''Nyrsdagen (helgdag), Svea''] = Inr (Some (''01-01'', [])) \<and>
   parse_rows [] [[''1 Januari'', ''Nyrsdagen (helgdag), Svea'']] = Inr [(''01-01'', [])]"
proof -
  have run: "parse_row [''1 Januari'', ''Svea''] = Inr (Some (''01-01'', []))"
    by code_simp
  have mem: "''01-01'' \<in> EMPTY_DATES"
    by (simp add: EMPTY_DATES_def)
  show ?thesis
    using run force_empty_ignores_names [OF run mem, of "''Nyrsdagen (helgdag), Svea''" "[]" "[]"]
    by simp
qed

section \<open>The names of a row\<close>

lemma not_space_open: "\<not> py_isspace CHR ''(''"
  by (simp add: py_isspace_def)

lemma match_paren_suffix: "match_paren s = Some rest \<Longrightarrow> set rest \<subseteq> set s"
proof -
  assume m: "match_paren s = Some rest"
  obtain cs where a: "dropWhile py_isspace s = CHR ''('' # cs"
    using m by (auto simp: match_paren_def split: list.splits if_splits)
  obtain d where b: "dropWhile (\<lambda>x. x \<noteq> CHR '')'') cs = d # rest"
    using m a by (auto simp: match_paren_def split: list.splits)
  have "set rest \<subseteq> set (dropWhile (\<lambda>x. x \<noteq> CHR '')'') cs)"
    using b by auto
  also have "\<dots> \<subseteq> set cs"
    by (auto dest: set_dropWhileD)
  also have "\<dots> \<subseteq> set (dropWhile py_isspace s)"
    using a by auto
  also have "\<dots> \<subseteq> set s"
    by (auto dest: set_dropWhileD)
  finally show ?thesis .
qed

lemma match_paren_open_None:
  assumes "match_paren (CHR ''('' # cs) = None"
  shows "CHR '')'' \<notin> set cs"
proof -
  from assms have "dropWhile (\<lambda>x. x \<noteq> CHR '')'') cs = []"
    by (simp add: match_paren_def not_space_open split: list.splits)
  then show ?thesis by auto
qed

lemma set_sub_parens: "set (sub_parens s) \<subseteq> set s"
proof (induction s rule: sub_parens.induct)
  case 1
  then show ?case by simp
next
  case (2 c cs)
  show ?case
  proof (cases "match_paren (c # cs)")
    case None
    with 2 show ?thesis by auto
  next
    case (Some rest)
    with 2 match_paren_suffix [OF Some] show ?thesis by auto
  qed
qed

lemma sub_parens_no_paren: "\<not> has_paren (sub_parens s)"
proof (induction s rule: sub_parens.induct)
  case 1
  then show ?case by simp
next
  case (2 c cs)
  show ?case
  proof (cases "match_paren (c # cs)")
    case None
    have "CHR '')'' \<notin> set (sub_parens cs)" if "c = CHR ''(''"
      using that None match_paren_open_None [of cs] set_sub_parens [of cs] by auto
    with None 2 show ?thesis by auto
  next
    case (Some rest)
    with 2 show ?thesis by simp
  qed
qed

lemma sub_parens_no_open: "CHR ''('' \<notin> set s \<Longrightarrow> sub_parens s = s"
proof (induction s)
  case Nil
  then show ?case by simp
next
  case (Cons c cs)
  have "match_paren (c # cs) = None"
  proof (cases "dropWhile py_isspace (c # cs)")
    case Nil
    then show ?thesis by (simp add: match_paren_def)
  next
    case (Cons x xs)
    then have "x \<in> set (c # cs)"
      by (metis list.set_intros(1) set_dropWhileD)
    with Cons.prems have "x \<noteq> CHR ''(''" by auto
    with Cons show ?thesis by (simp add: match_paren_def)
  qed
  with Cons show ?case by simp
qed

lemma has_paren_prepend: "has_paren t \<Longrightarrow> has_paren (p @ t)"
  by (induction p) auto

lemma has_paren_extend: "has_paren t \<Longrightarrow> has_paren (t @ q)"
  by (induction t) auto

lemma py_strip_infix: "\<exists>a b. s = a @ py_strip s @ b"
proof -
  let ?t = "dropWhile py_isspace s"
  have "rev (takeWhile py_isspace (rev ?t) @ dropWhile py_isspace (rev ?t)) = ?t"
    by (simp only: takeWhile_dropWhile_id rev_rev_ident)
  then have "py_strip s @ rev (takeWhile py_isspace (rev ?t)) = ?t"
    by (simp only: rev_append py_strip_def)
  moreover have "s = takeWhile py_isspace s @ ?t"
    by simp
  ultimately have "s = takeWhile py_isspace s @ py_strip s @ rev (takeWhile py_isspace (rev ?t))"
    by simp
  then show ?thesis by blast
qed

lemma has_paren_strip: "has_paren (py_strip s) \<Longrightarrow> has_paren s"
proof -
  assume h: "has_paren (py_strip s)"
  obtain a b where s: "s = a @ py_strip s @ b"
    using py_strip_infix by blast
  have "has_paren (a @ py_strip s @ b)"
    using h by (intro has_paren_prepend has_paren_extend)
  with s show ?thesis by simp
qed

lemma has_paren_iff:
  "has_paren s \<longleftrightarrow> (\<exists>a b c. s = a @ ''('' @ b @ '')'' @ c)"
proof (induction s)
  case Nil
  then show ?case by simp
next
  case (Cons x xs)
  show ?case
  proof
    assume "has_paren (x # xs)"
    then consider "x = CHR ''(''" "CHR '')'' \<in> set xs" | "has_paren xs" by auto
    then show "\<exists>a b c. x # xs = a @ ''('' @ b @ '')'' @ c"
    proof cases
      case 1
      from 1(2) obtain b c where "xs = b @ CHR '')'' # c"
        by (auto simp: in_set_conv_decomp)
      with 1(1) have "x # xs = [] @ ''('' @ b @ '')'' @ c" by simp
      then show ?thesis by blast
    next
      case 2
      with Cons obtain a b c where "xs = a @ ''('' @ b @ '')'' @ c" by blast
      then have "x # xs = (x # a) @ ''('' @ b @ '')'' @ c" by simp
      then show ?thesis by blast
    qed
  next
    assume "\<exists>a b c. x # xs = a @ ''('' @ b @ '')'' @ c"
    then obtain a b c where e: "x # xs = a @ ''('' @ b @ '')'' @ c" by blast
    have "has_paren (''('' @ b @ '')'' @ c)" by simp
    then have "has_paren (a @ ''('' @ b @ '')'' @ c)" by (rule has_paren_prepend)
    with e show "has_paren (x # xs)" by simp
  qed
qed

lemma junk_names_clean:
  assumes "n \<in> set (junk_names names_part)"
  shows "\<not> has_paren n \<and> n \<noteq> []"
proof -
  from assms obtain f where "n = py_strip (sub_parens f)" and "n \<noteq> []"
    by (auto simp: junk_names_def)
  then show ?thesis
    using has_paren_strip [of "sub_parens f"] sub_parens_no_paren [of f] by auto
qed


text \<open>
  The substitution of \<open>sub_parens\<close> and the removal in the specification's words differ
  in whitespace only: the pattern takes the whitespace before a parenthetical substring
  with it.
\<close>

lemma match_paren_space: "py_isspace c \<Longrightarrow> match_paren (c # cs) = match_paren cs"
  by (simp add: match_paren_def)

lemma match_paren_open:
  "match_paren (CHR ''('' # cs) =
     (if CHR '')'' \<in> set cs then Some (tl (dropWhile (\<lambda>x. x \<noteq> CHR '')'') cs)) else None)"
proof (cases "dropWhile (\<lambda>x. x \<noteq> CHR '')'') cs")
  case Nil
  then have "CHR '')'' \<notin> set cs" by auto
  then show ?thesis by (simp add: match_paren_def not_space_open Nil)
next
  case (Cons d rest)
  then have "dropWhile (\<lambda>x. x \<noteq> CHR '')'') cs \<noteq> []" by simp
  then have "CHR '')'' \<in> set cs" by auto
  then show ?thesis by (simp add: match_paren_def not_space_open Cons)
qed

lemma match_paren_other:
  "\<not> py_isspace c \<Longrightarrow> c \<noteq> CHR ''('' \<Longrightarrow> match_paren (c # cs) = None"
  by (simp add: match_paren_def)

lemma match_paren_Nil: "match_paren [] = None"
  by (simp add: match_paren_def)

lemma sub_parens_match: "match_paren s = Some rest \<Longrightarrow> sub_parens s = sub_parens rest"
  by (cases s) (simp_all add: match_paren_Nil)

lemma sub_parens_space:
  assumes "py_isspace c"
  shows "filter (\<lambda>x. \<not> py_isspace x) (sub_parens (c # cs))
           = filter (\<lambda>x. \<not> py_isspace x) (sub_parens cs)"
proof (cases "match_paren cs")
  case None
  with assms show ?thesis by (simp add: match_paren_space)
next
  case (Some rest)
  with assms have "sub_parens (c # cs) = sub_parens rest"
    by (simp add: match_paren_space)
  with Some show ?thesis by (simp add: sub_parens_match)
qed

lemma sub_parens_removes_parentheticals:
  "filter (\<lambda>x. \<not> py_isspace x) (sub_parens s)
     = filter (\<lambda>x. \<not> py_isspace x) (spec_remove_parens s)"
proof (induction s rule: length_induct)
  case (1 s)
  show ?case
  proof (cases s)
    case Nil
    then show ?thesis by simp
  next
    case (Cons c cs)
    have ih: "filter (\<lambda>x. \<not> py_isspace x) (sub_parens t)
                = filter (\<lambda>x. \<not> py_isspace x) (spec_remove_parens t)"
      if "length t \<le> length cs" for t
      using 1 that Cons by simp
    consider "py_isspace c" | "c = CHR ''(''" "CHR '')'' \<in> set cs"
      | "c = CHR ''(''" "CHR '')'' \<notin> set cs" | "\<not> py_isspace c" "c \<noteq> CHR ''(''"
      by blast
    then show ?thesis
    proof cases
      case 1
      then have "c \<noteq> CHR ''(''" using not_space_open by auto
      then have "spec_remove_parens s = c # spec_remove_parens cs"
        using Cons by simp
      moreover have "filter (\<lambda>x. \<not> py_isspace x) (sub_parens s)
                       = filter (\<lambda>x. \<not> py_isspace x) (sub_parens cs)"
        unfolding Cons using 1 by (rule sub_parens_space)
      ultimately show ?thesis
        using 1 ih [of cs] by simp
    next
      case 2
      let ?rest = "tl (dropWhile (\<lambda>x. x \<noteq> CHR '')'') cs)"
      have "length ?rest \<le> length cs"
        using length_dropWhile_le [of "\<lambda>x. x \<noteq> CHR '')''" cs] by simp
      from ih [OF this] 2 Cons show ?thesis by (simp add: match_paren_open)
    next
      case 3
      with Cons ih [of cs] show ?thesis by (simp add: match_paren_open)
    next
      case 4
      with Cons ih [of cs] show ?thesis by (simp add: match_paren_other)
    qed
  qed
qed

lemma py_strip_decomp:
  "s = takeWhile py_isspace s @ py_strip s
         @ rev (takeWhile py_isspace (rev (dropWhile py_isspace s)))"
proof -
  let ?t = "dropWhile py_isspace s"
  have "rev (takeWhile py_isspace (rev ?t) @ dropWhile py_isspace (rev ?t)) = ?t"
    by (simp only: takeWhile_dropWhile_id rev_rev_ident)
  then have "py_strip s @ rev (takeWhile py_isspace (rev ?t)) = ?t"
    by (simp only: rev_append py_strip_def)
  moreover have "s = takeWhile py_isspace s @ ?t"
    by simp
  ultimately show ?thesis by simp
qed

lemma despace_takeWhile: "filter (\<lambda>x. \<not> py_isspace x) (takeWhile py_isspace s) = []"
  by (auto simp: filter_empty_conv dest: set_takeWhileD)

lemma despace_strip:
  "filter (\<lambda>x. \<not> py_isspace x) (py_strip s) = filter (\<lambda>x. \<not> py_isspace x) s"
proof -
  have "filter (\<lambda>x. \<not> py_isspace x) s =
          filter (\<lambda>x. \<not> py_isspace x)
            (takeWhile py_isspace s @ py_strip s
               @ rev (takeWhile py_isspace (rev (dropWhile py_isspace s))))"
    using py_strip_decomp [of s] by (rule arg_cong)
  then show ?thesis
    by (simp only: filter_append despace_takeWhile rev_filter [symmetric] append_Nil
                   append_Nil2 rev.simps)
qed

lemma strip_empty_iff: "py_strip s = [] \<longleftrightarrow> filter (\<lambda>x. \<not> py_isspace x) s = []"
proof
  assume "py_strip s = []"
  then have "filter (\<lambda>x. \<not> py_isspace x) (py_strip s) = []" by simp
  then show "filter (\<lambda>x. \<not> py_isspace x) s = []" by (simp only: despace_strip)
next
  assume "filter (\<lambda>x. \<not> py_isspace x) s = []"
  then have "\<forall>x \<in> set s. py_isspace x" by (auto simp: filter_empty_conv)
  then have d: "dropWhile py_isspace s = []" by (induction s) auto
  show "py_strip s = []" unfolding py_strip_def d by simp
qed

lemma junk_names_spec:
  "map (filter (\<lambda>x. \<not> py_isspace x))
     (filter (\<lambda>n. n \<noteq> []) (map (\<lambda>f. py_strip (sub_parens f)) fs))
   = filter (\<lambda>n. n \<noteq> [])
       (map (\<lambda>f. filter (\<lambda>x. \<not> py_isspace x) (spec_remove_parens f)) fs)"
  by (induction fs)
     (simp_all add: strip_empty_iff despace_strip sub_parens_removes_parentheticals)

lemma match_paren_dropWhile: "match_paren s = match_paren (dropWhile py_isspace s)"
  by (simp add: match_paren_def)

lemma match_paren_ahead: "match_paren s \<noteq> None \<longleftrightarrow> parenthetical_ahead s"
proof (cases "dropWhile py_isspace s")
  case Nil
  have "match_paren s = None"
    by (subst match_paren_dropWhile) (simp only: Nil match_paren_Nil)
  moreover have "\<not> parenthetical_ahead s"
    unfolding parenthetical_ahead_def Nil by simp
  ultimately show ?thesis by simp
next
  case (Cons x r)
  have m: "match_paren s = match_paren (x # r)"
    by (subst match_paren_dropWhile) (simp only: Cons)
  have a: "parenthetical_ahead s \<longleftrightarrow> x = CHR ''('' \<and> CHR '')'' \<in> set r"
    unfolding parenthetical_ahead_def Cons by simp
  show ?thesis
  proof (cases "x = CHR ''(''")
    case True
    then show ?thesis
      unfolding m a by (simp add: match_paren_open)
  next
    case False
    have "dropWhile py_isspace s \<noteq> []" using Cons by simp
    then have "\<not> py_isspace (hd (dropWhile py_isspace s))" by (rule hd_dropWhile)
    then have "\<not> py_isspace x" unfolding Cons by simp
    then have "match_paren (x # r) = None"
      using False by (rule match_paren_other)
    then show ?thesis
      unfolding m a using False by simp
  qed
qed

lemma set_drop_space: "set (drop_space_before_parens s) \<subseteq> set s"
  by (induction s) auto

lemma drop_space_to_close:
  assumes "CHR '')'' \<notin> set a"
  shows "\<exists>a'. CHR '')'' \<notin> set a' \<and>
           drop_space_before_parens (a @ CHR '')'' # b) = a' @ CHR '')'' # drop_space_before_parens b"
  using assms
proof (induction a)
  case Nil
  have "\<not> py_isspace CHR '')''" by (simp add: py_isspace_def)
  then have "drop_space_before_parens ([] @ CHR '')'' # b) = [] @ CHR '')'' # drop_space_before_parens b"
    by simp
  then show ?case by (metis empty_iff empty_set)
next
  case (Cons x a)
  then obtain a' where a': "CHR '')'' \<notin> set a'"
    "drop_space_before_parens (a @ CHR '')'' # b) = a' @ CHR '')'' # drop_space_before_parens b"
    by auto
  show ?case
  proof (cases "py_isspace x \<and> parenthetical_ahead (a @ CHR '')'' # b)")
    case True
    then have "drop_space_before_parens ((x # a) @ CHR '')'' # b)
                 = a' @ CHR '')'' # drop_space_before_parens b"
      using a'(2) by simp
    with a'(1) show ?thesis by blast
  next
    case False
    then have "drop_space_before_parens ((x # a) @ CHR '')'' # b)
                 = (x # a') @ CHR '')'' # drop_space_before_parens b"
      using a'(2) by auto
    moreover have "CHR '')'' \<notin> set (x # a')"
      using a'(1) Cons.prems by auto
    ultimately show ?thesis by blast
  qed
qed

lemma tl_dropWhile_close:
  "CHR '')'' \<notin> set a \<Longrightarrow> tl (dropWhile (\<lambda>x. x \<noteq> CHR '')'') (a @ CHR '')'' # b)) = b"
  by (induction a) auto

lemma split_at_close:
  assumes "CHR '')'' \<in> set cs"
  shows "\<exists>a. CHR '')'' \<notin> set a \<and>
           cs = a @ CHR '')'' # tl (dropWhile (\<lambda>x. x \<noteq> CHR '')'') cs)"
proof -
  let ?a = "takeWhile (\<lambda>x. x \<noteq> CHR '')'') cs"
  let ?d = "dropWhile (\<lambda>x. x \<noteq> CHR '')'') cs"
  from assms have ne: "?d \<noteq> []" by auto
  then have "hd ?d = CHR '')''" using hd_dropWhile [of "\<lambda>x. x \<noteq> CHR '')''" cs] by simp
  with ne have d: "?d = CHR '')'' # tl ?d" by (cases ?d) auto
  have "cs = ?a @ ?d" by simp
  with d have "cs = ?a @ CHR '')'' # tl ?d" by simp
  moreover have "CHR '')'' \<notin> set ?a" by (auto dest: set_takeWhileD)
  ultimately show ?thesis by blast
qed

lemma sub_parens_exact: "sub_parens s = spec_remove_parens (drop_space_before_parens s)"
proof (induction s rule: length_induct)
  case (1 s)
  show ?case
  proof (cases s)
    case Nil
    then show ?thesis by simp
  next
    case (Cons c cs)
    have ih: "sub_parens t = spec_remove_parens (drop_space_before_parens t)"
      if "length t \<le> length cs" for t
      using 1 that Cons by simp
    consider "py_isspace c" "match_paren cs = None"
      | rest where "py_isspace c" "match_paren cs = Some rest"
      | "c = CHR ''(''" "CHR '')'' \<in> set cs"
      | "c = CHR ''(''" "CHR '')'' \<notin> set cs" | "\<not> py_isspace c" "c \<noteq> CHR ''(''"
      by (cases "match_paren cs") auto
    then show ?thesis
    proof cases
      case 1
      then have ne: "c \<noteq> CHR ''(''" using not_space_open by auto
      have "\<not> parenthetical_ahead cs"
        using 1(2) match_paren_ahead [of cs] by simp
      then have "drop_space_before_parens s = c # drop_space_before_parens cs"
        using Cons by simp
      moreover have "sub_parens s = c # sub_parens cs"
        using Cons 1 by (simp add: match_paren_space)
      ultimately show ?thesis using ne ih [of cs] by simp
    next
      case 2
      have "parenthetical_ahead cs"
        using 2(2) match_paren_ahead [of cs] by simp
      then have "drop_space_before_parens s = drop_space_before_parens cs"
        using Cons 2(1) by simp
      moreover have "sub_parens s = sub_parens rest"
        using Cons 2 by (simp add: match_paren_space)
      moreover have "sub_parens cs = sub_parens rest"
        using 2(2) by (rule sub_parens_match)
      ultimately show ?thesis using ih [of cs] by simp
    next
      case 3
      let ?rest = "tl (dropWhile (\<lambda>x. x \<noteq> CHR '')'') cs)"
      from split_at_close [OF 3(2)] obtain a where
        a: "CHR '')'' \<notin> set a" "cs = a @ CHR '')'' # ?rest" by blast
      from drop_space_to_close [OF a(1), of ?rest] obtain a' where
        a': "CHR '')'' \<notin> set a'"
            "drop_space_before_parens (a @ CHR '')'' # ?rest)
               = a' @ CHR '')'' # drop_space_before_parens ?rest" by blast
      have dcs: "drop_space_before_parens cs = a' @ CHR '')'' # drop_space_before_parens ?rest"
        using a(2) a'(2) by simp
      have "length ?rest \<le> length cs"
        using length_dropWhile_le [of "\<lambda>x. x \<noteq> CHR '')''" cs] by simp
      then have r: "sub_parens ?rest = spec_remove_parens (drop_space_before_parens ?rest)"
        by (rule ih)
      have "drop_space_before_parens s = CHR ''('' # drop_space_before_parens cs"
        using Cons 3(1) not_space_open by simp
      then have "spec_remove_parens (drop_space_before_parens s)
                   = spec_remove_parens (drop_space_before_parens ?rest)"
        unfolding dcs using a'(1) by (simp add: tl_dropWhile_close)
      moreover have "sub_parens s = sub_parens ?rest"
        using Cons 3 by (simp add: match_paren_open)
      ultimately show ?thesis using r by simp
    next
      case 4
      have "CHR '')'' \<notin> set (drop_space_before_parens cs)"
        using 4(2) set_drop_space [of cs] by auto
      moreover have "drop_space_before_parens s = CHR ''('' # drop_space_before_parens cs"
        using Cons 4(1) not_space_open by simp
      moreover have "sub_parens s = CHR ''('' # sub_parens cs"
        using Cons 4 by (simp add: match_paren_open)
      ultimately show ?thesis using ih [of cs] by simp
    next
      case 5
      then have "drop_space_before_parens s = c # drop_space_before_parens cs"
        using Cons by simp
      moreover have "sub_parens s = c # sub_parens cs"
        using Cons 5 by (simp add: match_paren_other)
      ultimately show ?thesis using 5(2) ih [of cs] by simp
    qed
  qed
qed

lemma junk_names_amended: "junk_names names_part = amended_junk_names names_part"
  by (simp add: junk_names_def amended_junk_names_def sub_parens_exact)

text \<open>
  Claim C6, as amended. On the strip-annotations path (key in \<open>DATES_WITH_JUNK\<close> and not
  in \<open>EMPTY_DATES\<close>) the recorded list is: the names cell with \<open>" och "\<close> replaced by a
  comma, split on commas, each fragment with every parenthetical substring removed
  together with the whitespace directly before it, then trimmed, the empty results
  dropped. No recorded name is empty, and none contains an opening parenthesis followed
  by a closing one.
\<close>

theorem strip_annotations_names:
  assumes "parse_row cols = Inr (Some (key, ns))"
    and "key \<in> DATES_WITH_JUNK" and "key \<notin> EMPTY_DATES"
  shows "ns = filter (\<lambda>n. n \<noteq> [])
                (map (\<lambda>f. py_strip (spec_remove_parens (drop_space_before_parens f)))
                   (py_split_on CHR '','' (py_replace '' och '' '','' (cols ! 1)))) \<and>
         map (filter (\<lambda>x. \<not> py_isspace x)) ns
           = filter (\<lambda>n. n \<noteq> [])
               (map (\<lambda>f. filter (\<lambda>x. \<not> py_isspace x) (spec_remove_parens f))
                  (py_split_on CHR '','' (py_replace '' och '' '','' (cols ! 1)))) \<and>
         (\<forall>n \<in> set ns. n \<noteq> [] \<and> \<not> has_paren n \<and>
                         (\<forall>a b c. n \<noteq> a @ ''('' @ b @ '')'' @ c))"
proof -
  from assms(1) obtain month d where
    "ns = (if key \<in> EMPTY_DATES then []
           else if key \<in> DATES_WITH_JUNK then junk_names (cols ! 1)
           else default_names (cols ! 1))"
    by (rule parse_row_SomeD)
  with assms(2,3) have ns: "ns = junk_names (cols ! 1)" by simp
  have "n \<noteq> [] \<and> \<not> has_paren n \<and> (\<forall>a b c. n \<noteq> a @ ''('' @ b @ '')'' @ c)"
    if "n \<in> set ns" for n
    using junk_names_clean [of n "cols ! 1"] that ns has_paren_iff [of n] by blast
  then have clean: "\<forall>n \<in> set ns. n \<noteq> [] \<and> \<not> has_paren n \<and>
                      (\<forall>a b c. n \<noteq> a @ ''('' @ b @ '')'' @ c)"
    by blast
  have code: "ns = filter (\<lambda>n. n \<noteq> [])
                (map (\<lambda>n. py_strip (sub_parens n))
                   (py_split_on CHR '','' (py_replace '' och '' '','' (cols ! 1))))"
    using ns by (simp add: junk_names_def)
  have exact: "ns = filter (\<lambda>n. n \<noteq> [])
                (map (\<lambda>f. py_strip (spec_remove_parens (drop_space_before_parens f)))
                   (py_split_on CHR '','' (py_replace '' och '' '','' (cols ! 1))))"
    using ns by (simp only: junk_names_amended amended_junk_names_def)
  have spec: "map (filter (\<lambda>x. \<not> py_isspace x)) ns
           = filter (\<lambda>n. n \<noteq> [])
               (map (\<lambda>f. filter (\<lambda>x. \<not> py_isspace x) (spec_remove_parens f))
                  (py_split_on CHR '','' (py_replace '' och '' '','' (cols ! 1))))"
    unfolding code by (rule junk_names_spec)
  from exact spec clean show ?thesis by (intro conjI)
qed

theorem strip_annotations_names_witness:
  "parse_row [''30 April'', ''Valborg (helgdag) och Mariana (Valborg), Anna (x)Maria'']
     = Inr (Some (''04-30'', [''Valborg'', ''Mariana'', ''AnnaMaria''])) \<and>
   [''Valborg'', ''Mariana'', ''AnnaMaria'']
     = filter (\<lambda>n. n \<noteq> [])
         (map (\<lambda>f. py_strip (spec_remove_parens (drop_space_before_parens f)))
            (py_split_on CHR '','' (py_replace '' och '' '',''
               ([''30 April'', ''Valborg (helgdag) och Mariana (Valborg), Anna (x)Maria''] ! 1)))) \<and>
   parse_tables [[[''Datum'', ''Namn''], [''30 April'', ''Mariana (Valborg)'']]]
     = Inr [(''04-30'', [''Mariana''])] \<and>
   \<not> has_paren ''Valborg'' \<and> \<not> has_paren ''Mariana'' \<and> \<not> has_paren ''AnnaMaria''"
proof -
  have run: "parse_row [''30 April'', ''Valborg (helgdag) och Mariana (Valborg), Anna (x)Maria'']
               = Inr (Some (''04-30'', [''Valborg'', ''Mariana'', ''AnnaMaria'']))"
    by code_simp
  have tab: "parse_tables [[[''Datum'', ''Namn''], [''30 April'', ''Mariana (Valborg)'']]]
               = Inr [(''04-30'', [''Mariana''])]"
    by code_simp
  have j: "''04-30'' \<in> DATES_WITH_JUNK" by (simp add: DATES_WITH_JUNK_def)
  have e: "''04-30'' \<notin> EMPTY_DATES" by (simp add: EMPTY_DATES_def)
  note inst = strip_annotations_names [OF run j e]
  have "\<forall>n \<in> set [''Valborg'', ''Mariana'', ''AnnaMaria'']. n \<noteq> [] \<and> \<not> has_paren n \<and>
                         (\<forall>a b c. n \<noteq> a @ ''('' @ b @ '')'' @ c)"
    using inst [THEN conjunct2] by (rule conjunct2)
  then have p: "\<not> has_paren ''Valborg''" "\<not> has_paren ''Mariana''" "\<not> has_paren ''AnnaMaria''"
    by simp_all
  from run inst [THEN conjunct1] tab p show ?thesis by (intro conjI)
qed

text \<open>
  The claim as stated removes the parenthetical substring alone. On a names cell with
  text directly after the closing parenthesis the code joins what the claim's wording
  keeps apart.
\<close>

theorem strip_annotations_takes_space:
  "parse_row [''30 April'', ''Anna (x)Maria''] = Inr (Some (''04-30'', [''AnnaMaria''])) \<and>
   spec_junk_names ''Anna (x)Maria'' = [''Anna Maria''] \<and>
   [''AnnaMaria''] \<noteq> spec_junk_names ''Anna (x)Maria''"
  by code_simp

text \<open>
  Claim C7. On the default path (key in neither set) the recorded list is: the names
  cell with \<open>" och "\<close> replaced by a comma, split on commas, each fragment trimmed, the
  empty ones dropped; parentheses stay. The instance after the theorem runs the two
  examples of the claim and a names cell with parentheses.
\<close>

theorem default_path_names:
  assumes "parse_row cols = Inr (Some (key, ns))"
    and "key \<notin> EMPTY_DATES" and "key \<notin> DATES_WITH_JUNK"
  shows "ns = filter (\<lambda>n. n \<noteq> [])
                (map py_strip (py_split_on CHR '','' (py_replace '' och '' '','' (cols ! 1))))"
proof -
  from assms(1) obtain month d where
    "ns = (if key \<in> EMPTY_DATES then []
           else if key \<in> DATES_WITH_JUNK then junk_names (cols ! 1)
           else default_names (cols ! 1))"
    by (rule parse_row_SomeD)
  with assms(2,3) have "ns = default_names (cols ! 1)" by simp
  then show ?thesis
    by (simp add: default_names_def filter_map comp_def)
qed

theorem default_path_names_witness:
  "parse_row [''18 maj'', ''Erik och Erika''] = Inr (Some (''05-18'', [''Erik'', ''Erika''])) \<and>
   [''Erik'', ''Erika''] = filter (\<lambda>n. n \<noteq> [])
      (map py_strip (py_split_on CHR '','' (py_replace '' och '' '',''
         ([''18 maj'', ''Erik och Erika''] ! 1)))) \<and>
   parse_tables [[[''Datum'', ''Namn''], [''15 Mars'', ''Kristoffer, Christoffer'']]]
     = Inr [(''03-15'', [''Kristoffer'', ''Christoffer''])] \<and>
   parse_row [''15 Mars'', ''Kristoffer (Valborg)''] = Inr (Some (''03-15'', [''Kristoffer (Valborg)'']))"
proof -
  have run: "parse_row [''18 maj'', ''Erik och Erika''] = Inr (Some (''05-18'', [''Erik'', ''Erika'']))"
    by code_simp
  have tab: "parse_tables [[[''Datum'', ''Namn''], [''15 Mars'', ''Kristoffer, Christoffer'']]]
               = Inr [(''03-15'', [''Kristoffer'', ''Christoffer''])]"
    by code_simp
  have par: "parse_row [''15 Mars'', ''Kristoffer (Valborg)'']
               = Inr (Some (''03-15'', [''Kristoffer (Valborg)'']))"
    by code_simp
  have j: "''05-18'' \<notin> DATES_WITH_JUNK" by (simp add: DATES_WITH_JUNK_def)
  have e: "''05-18'' \<notin> EMPTY_DATES" by (simp add: EMPTY_DATES_def)
  from run default_path_names [OF run e j] tab par show ?thesis by (intro conjI)
qed

section \<open>Order of the rows\<close>

lemma parse_rows_other_keys:
  assumes "\<forall>r' \<in> set post. \<forall>v'. parse_row r' \<noteq> Inr (Some (k, v'))"
    and "parse_rows res post = Inr m"
  shows "map_of m k = map_of res k"
  using assms
proof (induction post arbitrary: res)
  case Nil
  then show ?case by simp
next
  case (Cons r post)
  show ?case
  proof (cases "parse_row r")
    case (Inl e)
    with Cons.prems show ?thesis by simp
  next
    case (Inr o1)
    show ?thesis
    proof (cases o1)
      case None
      with Inr Cons show ?thesis by simp
    next
      case (Some p)
      obtain key ns where p: "p = (key, ns)" by (cases p)
      from Cons.prems(1) Inr Some p have ne: "key \<noteq> k" by auto
      from Cons.prems(2) Inr Some p
      have "parse_rows (AList.update key ns res) post = Inr m" by simp
      with Cons.IH Cons.prems(1) have "map_of m k = map_of (AList.update key ns res) k"
        by simp
      with ne show ?thesis by (simp add: AList.update_conv')
    qed
  qed
qed

text \<open>
  Claim C9. \<open>parse_tables\<close> reads nothing but its argument and starts from the empty
  dictionary, so two runs on one document give one outcome. Of the rows after the
  headers, in the order of the tables, the last one that records a key decides the value
  of that key in the returned mapping, whatever earlier rows or tables recorded for it.
\<close>

theorem extraction_deterministic_last_write_wins:
  assumes "first_run = parse_tables html" and "second_run = parse_tables html"
  shows "first_run = second_run \<and>
         (concat (map (drop 1) html) = pre @ r # post \<and>
          parse_row r = Inr (Some (k, v)) \<and>
          (\<forall>r' \<in> set post. \<forall>v'. parse_row r' \<noteq> Inr (Some (k, v'))) \<and>
          second_run = Inr m
          \<longrightarrow> map_of m k = Some v)"
proof -
  have "map_of m k = Some v"
    if rows: "concat (map (drop 1) html) = pre @ r # post"
      and r: "parse_row r = Inr (Some (k, v))"
      and post: "\<forall>r' \<in> set post. \<forall>v'. parse_row r' \<noteq> Inr (Some (k, v'))"
      and run: "second_run = Inr m"
  proof -
    from run assms(2) rows have all: "parse_rows [] (pre @ r # post) = Inr m"
      by (simp add: parse_tables_def parse_tables_loop_rows)
    then obtain res where pre: "parse_rows [] pre = Inr res"
      and tl: "parse_rows res (r # post) = Inr m"
      by (auto simp: parse_rows_append split: sum.splits)
    from tl r have "parse_rows (AList.update k v res) post = Inr m" by simp
    from parse_rows_other_keys [OF post this] show ?thesis
      by (simp add: AList.update_conv')
  qed
  with assms show ?thesis by blast
qed

theorem extraction_deterministic_last_write_wins_witness:
  "parse_tables [[[''Datum'', ''Namn''], [''15 Mars'', ''Kristoffer'']],
                 [[''Datum'', ''Namn''], [''15 mars'', ''Christoffer''], [''16 mars'', ''Herbert'']]]
     = Inr [(''03-15'', [''Christoffer'']), (''03-16'', [''Herbert''])] \<and>
   map_of [(''03-15'', [''Christoffer'']), (''03-16'', [''Herbert''])] ''03-15''
     = Some [''Christoffer'']"
proof -
  let ?html = "[[[''Datum'', ''Namn''], [''15 Mars'', ''Kristoffer'']],
                [[''Datum'', ''Namn''], [''15 mars'', ''Christoffer''], [''16 mars'', ''Herbert'']]]"
  have run: "parse_tables ?html = Inr [(''03-15'', [''Christoffer'']), (''03-16'', [''Herbert''])]"
    by code_simp
  have rows: "concat (map (drop 1) ?html)
                = [[''15 Mars'', ''Kristoffer'']] @ [''15 mars'', ''Christoffer'']
                    # [[''16 mars'', ''Herbert'']]"
    by simp
  have r: "parse_row [''15 mars'', ''Christoffer''] = Inr (Some (''03-15'', [''Christoffer'']))"
    by code_simp
  have o: "parse_row [''16 mars'', ''Herbert''] = Inr (Some (''03-16'', [''Herbert'']))"
    by code_simp
  have post: "\<forall>r' \<in> set [[''16 mars'', ''Herbert'']]. \<forall>v'.
                parse_row r' \<noteq> Inr (Some (''03-15'', v'))"
    unfolding list.set ball_simps o by simp
  from extraction_deterministic_last_write_wins [OF refl refl, of ?html
         "[[''15 Mars'', ''Kristoffer'']]" "[''15 mars'', ''Christoffer'']"
         "[[''16 mars'', ''Herbert'']]" "''03-15''" "[''Christoffer'']"
         "[(''03-15'', [''Christoffer'']), (''03-16'', [''Herbert''])]"]
       rows r post run
  have "map_of [(''03-15'', [''Christoffer'']), (''03-16'', [''Herbert''])] ''03-15''
          = Some [''Christoffer'']"
    by blast
  with run show ?thesis by (intro conjI)
qed

section \<open>The service\<close>

text \<open>
  Claim C8. When the key is accepted, the document is fetched and the extraction returns
  the empty mapping, \<open>refresh_namedays\<close> raises the HTTP error 500 and leaves the state as
  it was: the store, the file and \<open>NAMEDAYS\<close> keep their values.
\<close>

theorem empty_extraction_fails_refresh:
  assumes "verify_api_key s x_api_key = Inr ()"
    and "fetched = Inr html"
    and "parse_tables html = Inr []"
  shows "refresh_namedays s x_api_key fetched
           = (Inl (HTTPException 500 ''Failed to fetch data from Wikipedia''), s)"
  using assms by (simp add: refresh_namedays_def)

theorem empty_extraction_fails_refresh_witness:
  "refresh_namedays
     \<lparr>API_KEY = ''secret'', kv = None, json_file = Some [(''03-15'', [''Kristoffer''])],
      NAMEDAYS = [(''03-15'', [''Kristoffer''])]\<rparr>
     ''secret'' (Inr [[[''Datum'', ''Namn''], [''Se fotnot'']]])
   = (Inl (HTTPException 500 ''Failed to fetch data from Wikipedia''),
      \<lparr>API_KEY = ''secret'', kv = None, json_file = Some [(''03-15'', [''Kristoffer''])],
       NAMEDAYS = [(''03-15'', [''Kristoffer''])]\<rparr>)"
proof -
  have v: "verify_api_key
             \<lparr>API_KEY = ''secret'', kv = None, json_file = Some [(''03-15'', [''Kristoffer''])],
              NAMEDAYS = [(''03-15'', [''Kristoffer''])]\<rparr> ''secret'' = Inr ()"
    by (simp add: verify_api_key_def)
  have p: "parse_tables [[[''Datum'', ''Namn''], [''Se fotnot'']]] = Inr []"
    by code_simp
  show ?thesis
    using empty_extraction_fails_refresh [OF v refl p] .
qed

lemma refresh_error_keeps_state:
  "refresh_namedays s x_api_key fetched = (Inl e, s') \<Longrightarrow> s' = s"
  by (auto simp: refresh_namedays_def Let_def split: sum.splits if_splits)

lemma days_in_month_2000:
  assumes "1 \<le> month" and "month \<le> 12"
  shows "days_in_month 2000 month =
           (if month = 2 then 29
            else if month = 4 \<or> month = 6 \<or> month = 9 \<or> month = 11 then 30 else 31)"
proof -
  from assms have "month = 1 \<or> month = 2 \<or> month = 3 \<or> month = 4 \<or> month = 5 \<or> month = 6 \<or>
                   month = 7 \<or> month = 8 \<or> month = 9 \<or> month = 10 \<or> month = 11 \<or> month = 12"
    by arith
  then show ?thesis
    by (elim disjE) (simp_all add: days_in_month_def is_leap_def)
qed

lemma get_date_invalid_iff:
  "get_date namedays month day = Inl (HTTPException 400 ''Invalid date'') \<longleftrightarrow>
     1 \<le> month \<and> month \<le> 12 \<and> 1 \<le> day \<and> day \<le> 31 \<and> days_in_month 2000 month < day"
  by (auto simp: get_date_def datetime_def Let_def split: if_splits sum.splits)

text \<open>
  Claim C10. The year of the validation, 2000, is a leap year: \<open>get_date\<close> accepts month 2,
  day 29 and answers with the entry stored under \<open>02-29\<close> (the empty list when there is
  none). It answers 400 \<open>Invalid date\<close> exactly for the days 30 and 31 of month 2 and the
  day 31 of the months 4, 6, 9 and 11, among them month 2, day 30 and month 4, day 31.
\<close>

theorem get_date_leap_day:
  "is_leap 2000 \<and>
   get_date namedays 2 29
     = Inr \<lparr>date = ''02-29'',
            names = (case map_of namedays ''02-29'' of None \<Rightarrow> [] | Some stored \<Rightarrow> stored),
            count = length (case map_of namedays ''02-29'' of None \<Rightarrow> [] | Some stored \<Rightarrow> stored)\<rparr> \<and>
   get_date namedays 2 30 = Inl (HTTPException 400 ''Invalid date'') \<and>
   get_date namedays 4 31 = Inl (HTTPException 400 ''Invalid date'') \<and>
   (\<forall>month day.
      get_date namedays month day = Inl (HTTPException 400 ''Invalid date'') \<longleftrightarrow>
        (month = 2 \<and> (day = 30 \<or> day = 31)) \<or>
        ((month = 4 \<or> month = 6 \<or> month = 9 \<or> month = 11) \<and> day = 31))"
proof -
  have k: "fmt02d 2 @ ''-'' @ fmt02d 29 = ''02-29''"
    by code_simp
  have a: "datetime 2000 2 29 = Inr (2000, 2, 29)"
    by (simp add: datetime_def days_in_month_def is_leap_def)
  have l: "is_leap 2000"
    by (simp add: is_leap_def)
  have ok: "get_date namedays 2 29
     = Inr \<lparr>date = ''02-29'',
            names = (case map_of namedays ''02-29'' of None \<Rightarrow> [] | Some stored \<Rightarrow> stored),
            count = length (case map_of namedays ''02-29'' of None \<Rightarrow> [] | Some stored \<Rightarrow> stored)\<rparr>"
    using k by (simp add: get_date_def a Let_def dict_get_def)
  have gen: "get_date namedays month day = Inl (HTTPException 400 ''Invalid date'') \<longleftrightarrow>
        (month = 2 \<and> (day = 30 \<or> day = 31)) \<or>
        ((month = 4 \<or> month = 6 \<or> month = 9 \<or> month = 11) \<and> day = 31)" for month day
  proof (cases "1 \<le> month \<and> month \<le> 12")
    case True
    then show ?thesis
      unfolding get_date_invalid_iff
      using days_in_month_2000 [of month] by (auto split: if_splits)
  next
    case False
    then show ?thesis
      unfolding get_date_invalid_iff by auto
  qed
  have b: "get_date namedays 2 30 = Inl (HTTPException 400 ''Invalid date'')"
    unfolding gen by simp
  have c: "get_date namedays 4 31 = Inl (HTTPException 400 ''Invalid date'')"
    unfolding gen by simp
  from l ok b c gen show ?thesis by blast
qed

theorem get_date_leap_day_witness:
  "get_date [(''02-28'', [''Maria'']), (''02-29'', [''Skottdagen''])] 2 29
     = Inr \<lparr>date = ''02-29'', names = [''Skottdagen''], count = 1\<rparr> \<and>
   get_date [(''02-28'', [''Maria'']), (''02-29'', [''Skottdagen''])] 2 30
     = Inl (HTTPException 400 ''Invalid date'') \<and>
   get_date [(''02-28'', [''Maria'']), (''02-29'', [''Skottdagen''])] 4 31
     = Inl (HTTPException 400 ''Invalid date'') \<and>
   get_date [(''02-28'', [''Maria'']), (''02-29'', [''Skottdagen''])] 6 31
     = Inl (HTTPException 400 ''Invalid date'')"
proof -
  let ?t = "[(''02-28'', [''Maria'']), (''02-29'', [''Skottdagen''])]"
  note inst = get_date_leap_day [of ?t]
  have look: "(case map_of ?t ''02-29'' of None \<Rightarrow> [] | Some stored \<Rightarrow> stored) = [''Skottdagen'']"
    by simp
  have a: "get_date ?t 2 29 = Inr \<lparr>date = ''02-29'', names = [''Skottdagen''], count = 1\<rparr>"
    using inst [THEN conjunct2, THEN conjunct1] unfolding look by simp
  have b: "get_date ?t 2 30 = Inl (HTTPException 400 ''Invalid date'')"
    using inst by blast
  have c: "get_date ?t 4 31 = Inl (HTTPException 400 ''Invalid date'')"
    using inst by blast
  have d: "get_date ?t 6 31 = Inl (HTTPException 400 ''Invalid date'')"
    using inst by blast
  from a b c d show ?thesis by (intro conjI)
qed

section \<open>When the extractor raises\<close>

text \<open>
  \<open>parse_tables\<close> raises exactly when some row after a header has at least two cells, a
  date cell of two tokens and a recognised month token, and a day token that \<open>int\<close>
  rejects; the exception is then \<open>ValueError\<close>.
\<close>

lemma parse_row_raises:
  "parse_row r = Inl e \<longleftrightarrow>
     e = ValueError \<and> 2 \<le> length r \<and> length (py_split (py_lower (r ! 0))) = 2 \<and>
     map_of MONTH_MAP (py_split (py_lower (r ! 0)) ! 1) \<noteq> None \<and>
     py_int (py_split (py_lower (r ! 0)) ! 0) = None"
  by (auto simp: parse_row_def Let_def split: option.splits)

lemma parse_rows_raises:
  "(\<exists>e. parse_rows res rows = Inl e) \<longleftrightarrow> (\<exists>r \<in> set rows. \<exists>e. parse_row r = Inl e)"
proof (induction rows arbitrary: res)
  case Nil
  then show ?case by simp
next
  case (Cons r rows)
  show ?case
  proof (cases "parse_row r")
    case (Inl e)
    then show ?thesis by auto
  next
    case (Inr o1)
    then show ?thesis
      using Cons.IH by (cases o1) (auto split: prod.splits)
  qed
qed

lemma parse_tables_raises_iff:
  "(\<exists>e. parse_tables html = Inl e) \<longleftrightarrow>
     (\<exists>r \<in> set (concat (map (drop 1) html)).
        2 \<le> length r \<and> length (py_split (py_lower (r ! 0))) = 2 \<and>
        map_of MONTH_MAP (py_split (py_lower (r ! 0)) ! 1) \<noteq> None \<and>
        py_int (py_split (py_lower (r ! 0)) ! 0) = None)"
  unfolding parse_tables_def parse_tables_loop_rows parse_rows_raises parse_row_raises
  by blast

lemma parse_tables_raises_ValueError: "parse_tables html = Inl e \<Longrightarrow> e = ValueError"
proof -
  have "parse_rows res rows = Inl e \<Longrightarrow> e = ValueError" for res rows
  proof (induction rows arbitrary: res)
    case Nil
    then show ?case by simp
  next
    case (Cons r rows)
    then show ?case
      using parse_row_raises [of r e]
      by (auto split: sum.splits option.splits prod.splits)
  qed
  then show "parse_tables html = Inl e \<Longrightarrow> e = ValueError"
    by (simp add: parse_tables_def parse_tables_loop_rows)
qed

end
